theory Spec2Isabelle
  imports Main "HOL-Library.Char_ord" "HOL-Library.List_Lexorder" "HOL-Library.Product_Lexorder"
    "HOL-Library.Sublist"
begin

section \<open>Data model\<close>

text \<open>
  \<^verbatim>\<open>export type PolicyArea = 'IT' | 'HR' | 'General';\<close> (lib/types.ts)
\<close>

datatype PolicyArea = IT | HR | General

text \<open>
  The \<^verbatim>\<open>sources\<close> value has type \<^verbatim>\<open>string | string[]\<close> in lib/types.ts and in the
  signature of \<^verbatim>\<open>addQueryToHistory\<close>.
\<close>

datatype sources_value = SourcesString string | SourcesArray "string list"

text \<open>
  A Firestore \<^verbatim>\<open>Timestamp\<close> is represented by the number its \<^verbatim>\<open>toMillis()\<close> returns.
\<close>

type_synonym Timestamp = int

text \<open>
  The \<^verbatim>\<open>Query\<close> interface of lib/types.ts: one document of the collection
  \<^verbatim>\<open>'queries'\<close> together with its document id (\<^verbatim>\<open>{ id: doc.id, ...doc.data() }\<close>).
  The four debate-flow fields are optional in the interface; \<^verbatim>\<open>createdAt\<close> is optional
  here because \<^verbatim>\<open>getUserQueryHistory\<close> reads it with \<^verbatim>\<open>a.createdAt?.toMillis()\<close>.
\<close>

record Query =
  query_id :: string
  userId :: string
  question :: string
  answer :: string
  policyArea :: PolicyArea
  sources :: sources_value
  createdAt :: "Timestamp option"
  itExpertResponse :: "string option"
  hrExpertResponse :: "string option"
  itContext :: "string list option"
  hrContext :: "string list option"

text \<open>The optional sixth argument \<^verbatim>\<open>debateFlow\<close> of \<^verbatim>\<open>addQueryToHistory\<close>.\<close>

record debateFlow =
  df_itExpertResponse :: "string option"
  df_hrExpertResponse :: "string option"
  df_itContext :: "string list option"
  df_hrContext :: "string list option"

text \<open>
  The JSON body of a successful \<^verbatim>\<open>POST /api/query\<close>, as \<^verbatim>\<open>handleQuery\<close> reads it:
  \<^verbatim>\<open>data.answer\<close>, \<^verbatim>\<open>data.sources\<close>, \<^verbatim>\<open>data.it_expert_response\<close>,
  \<^verbatim>\<open>data.hr_expert_response\<close>, \<^verbatim>\<open>data.it_context\<close>, \<^verbatim>\<open>data.hr_context\<close>.
  A field that is missing (or null) is \<open>None\<close>.
\<close>

record api_data =
  d_answer :: string
  d_sources :: "sources_value option"
  d_it_expert_response :: "string option"
  d_hr_expert_response :: "string option"
  d_it_context :: "string list option"
  d_hr_context :: "string list option"

text \<open>The body of the request sent to the backend.\<close>

record api_request =
  req_question :: string
  req_user_id :: string

text \<open>
  What \<^verbatim>\<open>fetch\<close> and the reading of the response can do:
  \<^item> \<open>FetchRejects m\<close>: \<^verbatim>\<open>fetch\<close> rejects with an error whose message is \<open>m\<close>;
  \<^item> \<open>NotOk NotJson\<close>: \<^verbatim>\<open>response.ok\<close> is false and the body is not JSON;
  \<^item> \<open>NotOk (ReadThrows m)\<close>: \<^verbatim>\<open>response.ok\<close> is false and the body is the JSON
    value null, so that reading \<^verbatim>\<open>errorData.detail\<close> throws a TypeError, whose message
    is \<open>m\<close>;
  \<^item> \<open>NotOk (Detail d)\<close>: \<^verbatim>\<open>response.ok\<close> is false and the body is JSON whose
    \<^verbatim>\<open>detail\<close> is \<open>d\<close> (\<open>None\<close> when missing);
  \<^item> \<open>OkRejects m\<close>: \<^verbatim>\<open>response.ok\<close> is true and \<^verbatim>\<open>response.json()\<close> rejects with
    message \<open>m\<close>, or the body is the JSON value null, so that reading
    \<^verbatim>\<open>data.it_context\<close> throws a TypeError with message \<open>m\<close>;
  \<^item> \<open>OkData d\<close>: \<^verbatim>\<open>response.ok\<close> is true and the body parses to \<open>d\<close>.
\<close>

datatype error_body = NotJson | ReadThrows string | Detail "string option"

datatype fetch_outcome =
    FetchRejects string
  | NotOk error_body
  | OkRejects string
  | OkData api_data

text \<open>
  \<^verbatim>\<open>QueryResult\<close> and \<^verbatim>\<open>QueryFormState\<close> of lib/actions.ts. At run time
  \<^verbatim>\<open>sources\<close> holds \<^verbatim>\<open>data.sources || []\<close>, which is whatever the backend sent.
\<close>

record QueryResult =
  res_question :: string
  res_answer :: string
  res_policyArea :: PolicyArea
  res_sources :: sources_value
  res_it_context :: "string list option"
  res_hr_context :: "string list option"

record QueryFormState =
  result :: "QueryResult option"
  error :: "string option"

text \<open>
  The things outside the functions that one invocation depends on: what the backend
  answers to a request, whether Firestore's \<^verbatim>\<open>addDoc\<close> resolves (with the id it generated)
  or rejects, whether \<^verbatim>\<open>getDocs\<close> resolves or rejects (it rejects, for one, when the
  store lacks an index that the query requires), and the clock read by
  \<^verbatim>\<open>Timestamp.now()\<close>.
\<close>

record env =
  fetch :: "api_request \<Rightarrow> fetch_outcome"
  addDoc :: "string option"
  getDocs_resolves :: bool
  now :: Timestamp

text \<open>
  The state the functions act on: the documents of the collection \<^verbatim>\<open>'queries'\<close>, the
  requests sent to the backend so far, and the paths passed to \<^verbatim>\<open>revalidatePath\<close>.
\<close>

record world =
  queries :: "Query list"
  requests :: "api_request list"
  revalidated :: "string list"

section \<open>lib/db.ts: addQueryToHistory\<close>

text \<open>Source: src/unnamed/part_002, lines 13 to 50.\<close>

text \<open>
  \<^verbatim>\<open>Array.isArray(sources) ? sources : (sources ? [sources] : [])\<close>; the argument is
  \<open>None\<close> when it is undefined or null.
\<close>

fun normalize_sources :: "sources_value option \<Rightarrow> string list" where
  "normalize_sources (Some (SourcesArray xs)) = xs"
| "normalize_sources (Some (SourcesString s)) = (if s \<noteq> [] then [s] else [])"
| "normalize_sources None = []"

text \<open>\<^verbatim>\<open>if (v) docData.f = v\<close> for a string \<open>v\<close>: the empty string is falsy.\<close>

fun truthy_string :: "string option \<Rightarrow> string option" where
  "truthy_string (Some s) = (if s \<noteq> [] then Some s else None)"
| "truthy_string None = None"

text \<open>
  The document built by \<^verbatim>\<open>addQueryToHistory\<close> (lines 27 to 42), before its id is
  known. An array is truthy even when empty, so a context list is copied whenever it is
  given.
\<close>

definition docData ::
  "Timestamp \<Rightarrow> string \<Rightarrow> string \<Rightarrow> string \<Rightarrow> PolicyArea \<Rightarrow> sources_value option
     \<Rightarrow> debateFlow option \<Rightarrow> string \<Rightarrow> Query" where
  "docData t uid q a p srcs df i =
     \<lparr> query_id = i, userId = uid, question = q, answer = a, policyArea = p,
       sources = SourcesArray (normalize_sources srcs),
       createdAt = Some t,
       itExpertResponse = (case df of None \<Rightarrow> None | Some f \<Rightarrow> truthy_string (df_itExpertResponse f)),
       hrExpertResponse = (case df of None \<Rightarrow> None | Some f \<Rightarrow> truthy_string (df_hrExpertResponse f)),
       itContext = (case df of None \<Rightarrow> None | Some f \<Rightarrow> df_itContext f),
       hrContext = (case df of None \<Rightarrow> None | Some f \<Rightarrow> df_hrContext f) \<rparr>"

text \<open>
  \<^verbatim>\<open>addQueryToHistory\<close>: returns the new state and either the id of the new document
  (\<open>Inr\<close>) or the message of the error it throws (\<open>Inl\<close>).
\<close>

definition addQueryToHistory ::
  "env \<Rightarrow> world \<Rightarrow> string \<Rightarrow> string \<Rightarrow> string \<Rightarrow> PolicyArea \<Rightarrow> sources_value option
     \<Rightarrow> debateFlow option \<Rightarrow> world \<times> (string + string)" where
  "addQueryToHistory e w uid q a p srcs df =
     (case addDoc e of
        None \<Rightarrow> (w, Inl ''Failed to save query to history.'')
      | Some i \<Rightarrow>
          (w\<lparr>queries := queries w @ [docData (now e) uid q a p srcs df i]\<rparr>, Inr i))"

section \<open>lib/actions.ts: handleQuery\<close>

text \<open>Source: src/unnamed/part_001, lines 74 to 155.\<close>

text \<open>\<^verbatim>\<open>data.it_context?.length || 0\<close>\<close>

fun context_length :: "string list option \<Rightarrow> nat" where
  "context_length None = 0"
| "context_length (Some xs) = length xs"

text \<open>Lines 111 to 118.\<close>

definition attributed_area :: "api_data \<Rightarrow> PolicyArea" where
  "attributed_area d =
     (let itContextLength = context_length (d_it_context d);
          hrContextLength = context_length (d_hr_context d)
      in if itContextLength > hrContextLength \<and> itContextLength > 0 then IT
         else if hrContextLength > itContextLength \<and> hrContextLength > 0 then HR
         else General)"

text \<open>\<^verbatim>\<open>data.sources || []\<close>: undefined, null and the empty string are falsy.\<close>

fun sources_or_empty :: "sources_value option \<Rightarrow> sources_value" where
  "sources_or_empty None = SourcesArray []"
| "sources_or_empty (Some (SourcesString s)) = (if s \<noteq> [] then SourcesString s else SourcesArray [])"
| "sources_or_empty (Some (SourcesArray xs)) = SourcesArray xs"

text \<open>\<^verbatim>\<open>m || dflt\<close> for a message \<open>m\<close> that may be missing or empty.\<close>

fun or_else :: "string option \<Rightarrow> string \<Rightarrow> string" where
  "or_else (Some s) dflt = (if s \<noteq> [] then s else dflt)"
| "or_else None dflt = dflt"

text \<open>
  The body of the \<^verbatim>\<open>try\<close> block (lines 88 to 147) for a non-empty question and user
  id: the new state, and either the message of the error thrown (\<open>Inl\<close>) or the result
  returned (\<open>Inr\<close>).
\<close>

definition try_block :: "env \<Rightarrow> world \<Rightarrow> string \<Rightarrow> string \<Rightarrow> world \<times> (string + QueryResult)" where
  "try_block e w q uid =
     (let req = \<lparr> req_question = q, req_user_id = uid \<rparr>;
          w1 = w\<lparr>requests := requests w @ [req]\<rparr>
      in case fetch e req of
           FetchRejects m \<Rightarrow> (w1, Inl m)
         | NotOk body \<Rightarrow>
             (w1, Inl (case body of
                         NotJson \<Rightarrow> or_else (Some ''API request failed'') ''Failed to get answer from API''
                       | ReadThrows m \<Rightarrow> m
                       | Detail d \<Rightarrow> or_else d ''Failed to get answer from API''))
         | OkRejects m \<Rightarrow> (w1, Inl m)
         | OkData d \<Rightarrow>
             (let area = attributed_area d in
              case addQueryToHistory e w1 uid q (d_answer d) area (Some (sources_or_empty (d_sources d)))
                     (Some \<lparr> df_itExpertResponse = d_it_expert_response d,
                             df_hrExpertResponse = d_hr_expert_response d,
                             df_itContext = d_it_context d,
                             df_hrContext = d_hr_context d \<rparr>) of
                (w2, Inl m) \<Rightarrow> (w2, Inl m)
              | (w2, Inr i) \<Rightarrow>
                  (w2\<lparr>revalidated := revalidated w2 @ [''/dashboard'']\<rparr>,
                   Inr \<lparr> res_question = q, res_answer = d_answer d, res_policyArea = area,
                         res_sources = sources_or_empty (d_sources d),
                         res_it_context = d_it_context d,
                         res_hr_context = d_hr_context d \<rparr>)))"

text \<open>
  \<^verbatim>\<open>FormData\<close> maps a field name to its value; \<^verbatim>\<open>data.get\<close> of a missing field is null.
  \<^verbatim>\<open>handleQuery\<close> does not read its first argument \<^verbatim>\<open>prevState\<close>, which is left out.
\<close>

type_synonym FormData = "string \<rightharpoonup> string"

definition handleQuery :: "env \<Rightarrow> world \<Rightarrow> FormData \<Rightarrow> world \<times> QueryFormState" where
  "handleQuery e w fd =
     (case truthy_string (fd ''question'') of
        None \<Rightarrow> (w, \<lparr> result = None, error = Some ''Please enter a question.'' \<rparr>)
      | Some q \<Rightarrow>
          (case truthy_string (fd ''userId'') of
             None \<Rightarrow> (w, \<lparr> result = None, error = Some ''You must be logged in to ask a question.'' \<rparr>)
           | Some uid \<Rightarrow>
               (case try_block e w q uid of
                  (w', Inr r) \<Rightarrow> (w', \<lparr> result = Some r, error = None \<rparr>)
                | (w', Inl m) \<Rightarrow>
                    (w', \<lparr> result = None, error = Some (or_else (Some m) ''An unexpected error occurred.'') \<rparr>))))"

section \<open>lib/db.ts: getUserQueryHistory\<close>

text \<open>Source: src/unnamed/part_002, lines 53 to 80.\<close>

text \<open>
  \<^verbatim>\<open>getDocs(query(collection(db, 'queries'), where('userId', '==', userId)))\<close>: the
  documents whose \<^verbatim>\<open>userId\<close> is the argument. A Firestore query without
  \<^verbatim>\<open>orderBy\<close> returns its documents in ascending order of document id.
\<close>

definition getDocs_where :: "Query list \<Rightarrow> string \<Rightarrow> Query list" where
  "getDocs_where c uid = sort_key query_id (filter (\<lambda>d. userId d = uid) c)"

text \<open>
  \<^verbatim>\<open>Array.prototype.sort(cmp)\<close>: a stable sort; \<open>a\<close> stays before \<open>b\<close> unless
  \<open>cmp a b > 0\<close>. Written as the insertion of each element, from the last to the first,
  into the sorted rest.
\<close>

fun insert_sorted :: "('a \<Rightarrow> 'a \<Rightarrow> int) \<Rightarrow> 'a \<Rightarrow> 'a list \<Rightarrow> 'a list" where
  "insert_sorted cmp a [] = [a]"
| "insert_sorted cmp a (b # bs) =
     (if cmp a b \<le> 0 then a # b # bs else b # insert_sorted cmp a bs)"

definition Array_sort :: "('a \<Rightarrow> 'a \<Rightarrow> int) \<Rightarrow> 'a list \<Rightarrow> 'a list" where
  "Array_sort cmp xs = foldr (insert_sorted cmp) xs []"

text \<open>\<^verbatim>\<open>a.createdAt?.toMillis() || 0\<close>\<close>

definition millis_or_zero :: "Query \<Rightarrow> int" where
  "millis_or_zero a = (case createdAt a of None \<Rightarrow> 0 | Some t \<Rightarrow> if t \<noteq> 0 then t else 0)"

text \<open>The comparator of lines 69 to 73: \<^verbatim>\<open>return bTime - aTime\<close>.\<close>

definition by_createdAt_desc :: "Query \<Rightarrow> Query \<Rightarrow> int" where
  "by_createdAt_desc a b =
     (let aTime = millis_or_zero a; bTime = millis_or_zero b in bTime - aTime)"

text \<open>
  \<^verbatim>\<open>getUserQueryHistory\<close> of lib/db.ts: the sorted history (\<open>Inr\<close>), or the message of
  the error thrown when \<^verbatim>\<open>getDocs\<close> rejects (\<open>Inl\<close>).
\<close>

definition getUserQueryHistory :: "env \<Rightarrow> world \<Rightarrow> string \<Rightarrow> string + Query list" where
  "getUserQueryHistory e w uid =
     (if getDocs_resolves e
      then Inr (Array_sort by_createdAt_desc (getDocs_where (queries w) uid))
      else Inl ''Failed to retrieve query history.'')"

subsection \<open>The earlier version, src/lib/db.ts\<close>

text \<open>
  Source: src/src/lib/db.ts, lines 38 to 56.
  \<^verbatim>\<open>query(collection(db, 'queries'), where('userId', '==', userId), orderBy('createdAt', 'desc'))\<close>:
  Firestore leaves out the documents that have no \<^verbatim>\<open>createdAt\<close> field, orders the
  rest by \<^verbatim>\<open>createdAt\<close> descending, and orders documents of equal \<^verbatim>\<open>createdAt\<close> by
  document id in the direction of the last \<^verbatim>\<open>orderBy\<close>, here descending.
\<close>

definition createdAt_and_id :: "Query \<Rightarrow> int \<times> string" where
  "createdAt_and_id d = (case createdAt d of None \<Rightarrow> (0, query_id d) | Some t \<Rightarrow> (t, query_id d))"

definition getDocs_where_orderBy_createdAt_desc :: "Query list \<Rightarrow> string \<Rightarrow> Query list" where
  "getDocs_where_orderBy_createdAt_desc c uid =
     rev (sort_key createdAt_and_id (filter (\<lambda>d. userId d = uid \<and> createdAt d \<noteq> None) c))"

definition getUserQueryHistory_legacy :: "env \<Rightarrow> world \<Rightarrow> string \<Rightarrow> string + Query list" where
  "getUserQueryHistory_legacy e w uid =
     (if getDocs_resolves e
      then Inr (getDocs_where_orderBy_createdAt_desc (queries w) uid)
      else Inl ''Failed to retrieve query history.'')"

section \<open>The chunker\<close>

text \<open>
  Modelled from the spec: the chunker \<^verbatim>\<open>chunk(text, maxLen, overlap)\<close> belongs to the
  backend's document processor, whose code is not among the source files. The
  definitions below follow sections 3 and 4.1 of the specification:
  \<^item> the text is split on sentence boundaries (a sentence ends with \<^verbatim>\<open>.\<close>, \<^verbatim>\<open>!\<close> or
    \<^verbatim>\<open>?\<close>; what follows the last of them is a sentence too);
  \<^item> a running segment accumulates sentences until adding the next one would exceed
    \<open>maxLen\<close>, at which point the segment is emitted;
  \<^item> each new segment begins by repeating the trailing \<open>overlap\<close> characters of the
    previous segment;
  \<^item> the length of a chunk is bounded by \<open>maxLen\<close>: a sentence that does not fit into
    a new segment after the repeated characters, in particular a sentence longer than
    \<open>maxLen\<close> alone, is hard-split at the character limit, the segment being filled up
    to \<open>maxLen\<close> characters and the rest of the sentence going on to the next segment;
  \<^item> an empty or whitespace-only text yields the empty sequence.

  The running segment is kept in two parts: \<open>pre\<close>, the characters repeated from the
  previous segment, and \<open>new\<close>, the sentences accumulated since. The bound leaves room
  for a new character only when fewer than \<open>maxLen\<close> characters are repeated, so at
  most \<open>maxLen - 1\<close> characters are repeated; these are \<open>overlap\<close> characters whenever
  \<open>overlap < maxLen\<close>, as in the documented configuration (500 and 100). With
  \<open>maxLen = 0\<close> nothing fits and each sentence is emitted as it is. Whitespace is space,
  tab, line feed, vertical tab, form feed and carriage return.
\<close>

definition sentence_end :: "char \<Rightarrow> bool" where
  "sentence_end c = (c = CHR ''.'' \<or> c = CHR ''!'' \<or> c = CHR ''?'')"

fun split_from :: "string \<Rightarrow> string \<Rightarrow> string list" where
  "split_from cur [] = (if cur = [] then [] else [cur])"
| "split_from cur (c # cs) =
     (if sentence_end c then (cur @ [c]) # split_from [] cs else split_from (cur @ [c]) cs)"

definition split_sentences :: "string \<Rightarrow> string list" where
  "split_sentences text = split_from [] text"

definition trailing :: "nat \<Rightarrow> nat \<Rightarrow> string \<Rightarrow> string" where
  "trailing maxLen overlap seg = drop (length seg - min overlap (maxLen - 1)) seg"

function accumulate :: "nat \<Rightarrow> nat \<Rightarrow> string \<Rightarrow> string \<Rightarrow> string list \<Rightarrow> string list" where
  "accumulate maxLen overlap pre new [] = (if new = [] then [] else [pre @ new])"
| "accumulate maxLen overlap pre new (s # ss) =
     (if length pre + length new + length s \<le> maxLen
      then accumulate maxLen overlap pre (new @ s) ss
      else if new \<noteq> []
      then (pre @ new) # accumulate maxLen overlap (trailing maxLen overlap (pre @ new)) [] (s # ss)
      else if length pre < maxLen
      then (pre @ take (maxLen - length pre) s)
             # accumulate maxLen overlap
                 (trailing maxLen overlap (pre @ take (maxLen - length pre) s)) []
                 (drop (maxLen - length pre) s # ss)
      else (pre @ s) # accumulate maxLen overlap (trailing maxLen overlap (pre @ s)) [] ss)"
  by pat_completeness auto
termination
  by (relation "measures [\<lambda>(maxLen, overlap, pre, new, ss). sum_list (map length ss) + length ss,
                          \<lambda>(maxLen, overlap, pre, new, ss). if new = [] then 0 else 1]") auto

declare accumulate.simps [simp del]

definition is_space :: "char \<Rightarrow> bool" where
  "is_space c = (c = CHR '' '' \<or> c = CHR 0x09 \<or> c = CHR 0x0A \<or> c = CHR 0x0B
                 \<or> c = CHR 0x0C \<or> c = CHR 0x0D)"

definition whitespace_only :: "string \<Rightarrow> bool" where
  "whitespace_only text = list_all is_space text"

definition chunk :: "string \<Rightarrow> nat \<Rightarrow> nat \<Rightarrow> string list" where
  "chunk text maxLen overlap =
     (if whitespace_only text then []
      else accumulate maxLen overlap [] [] (split_sentences text))"

section \<open>The group invariant of the specification\<close>

text \<open>
  The invariant as the specification words it: the four debate-flow fields of a history
  record are all absent, or populated together per area (an area's expert response is
  present exactly when that area's context list is).
\<close>

definition debate_group_invariant :: "Query \<Rightarrow> bool" where
  "debate_group_invariant r =
     ((itExpertResponse r = None \<and> hrExpertResponse r = None \<and> itContext r = None \<and> hrContext r = None)
      \<or> ((itExpertResponse r \<noteq> None \<longleftrightarrow> itContext r \<noteq> None)
          \<and> (hrExpertResponse r \<noteq> None \<longleftrightarrow> hrContext r \<noteq> None)))"

section \<open>Sample inputs\<close>

text \<open>Concrete inputs on which the theorems below are evaluated.\<close>

definition sample_data :: api_data where
  "sample_data =
     \<lparr> d_answer = ''Use the VPN.'', d_sources = None,
       d_it_expert_response = None, d_hr_expert_response = None,
       d_it_context = Some [''VPN required for public Wi-Fi''], d_hr_context = Some [] \<rparr>"

definition sample_env :: "string option \<Rightarrow> env" where
  "sample_env i = \<lparr> fetch = (\<lambda>r. OkData sample_data), addDoc = i, getDocs_resolves = True, now = 1700000000000 \<rparr>"

definition empty_world :: world where
  "empty_world = \<lparr> queries = [], requests = [], revalidated = [] \<rparr>"

definition sample_form :: FormData where
  "sample_form = [''question'' \<mapsto> ''Is a VPN required?'', ''userId'' \<mapsto> ''u1'']"

definition other_data :: api_data where
  "other_data =
     \<lparr> d_answer = ''Badges must be worn.'', d_sources = Some (SourcesArray [''security.pdf'']),
       d_it_expert_response = Some ''Wear the badge.'', d_hr_expert_response = Some ''No HR rule.'',
       d_it_context = Some [''Badges are mandatory in the data centre''], d_hr_context = None \<rparr>"

definition other_env :: env where
  "other_env = \<lparr> fetch = (\<lambda>r. OkData other_data), addDoc = Some ''id2'', getDocs_resolves = True,
                 now = 1700000000500 \<rparr>"

definition other_form :: FormData where
  "other_form = [''question'' \<mapsto> ''Badges?'', ''userId'' \<mapsto> ''u2'']"

definition longer_data :: api_data where
  "longer_data =
     \<lparr> d_answer = ''Use the VPN; leave is 20 days.'', d_sources = Some (SourcesArray [''it.pdf'', ''hr.txt'']),
       d_it_expert_response = Some ''VPN.'', d_hr_expert_response = Some ''20 days.'',
       d_it_context = Some [''VPN required for public Wi-Fi'', ''Laptops are encrypted''],
       d_hr_context = Some [''20 days paid vacation accrued monthly''] \<rparr>"

definition longer_env :: env where
  "longer_env = \<lparr> fetch = (\<lambda>r. OkData longer_data), addDoc = Some ''id3'', getDocs_resolves = True,
                  now = 1700000001000 \<rparr>"

definition blank_form :: FormData where
  "blank_form = (\<lambda>k. if k = ''question'' \<or> k = ''userId'' then Some [] else None)"

definition sample_debateFlow :: debateFlow where
  "sample_debateFlow =
     \<lparr> df_itExpertResponse = None, df_hrExpertResponse = None,
       df_itContext = Some [''VPN required for public Wi-Fi''], df_hrContext = None \<rparr>"

definition sample_record :: Query where
  "sample_record =
     \<lparr> query_id = ''id1'', userId = ''u1'', question = ''Is a VPN required?'',
       answer = ''Use the VPN.'', policyArea = IT, sources = SourcesArray [],
       createdAt = Some 1700000000000, itExpertResponse = None, hrExpertResponse = None,
       itContext = Some [''VPN required for public Wi-Fi''], hrContext = None \<rparr>"

text \<open>Documents of the collection, and a state holding a given collection.\<close>

definition doc_a :: Query where
  "doc_a = \<lparr> query_id = ''a'', userId = ''u1'', question = ''Q1'', answer = ''A1'', policyArea = IT,
          sources = SourcesArray [], createdAt = Some 1000, itExpertResponse = None,
          hrExpertResponse = None, itContext = None, hrContext = None \<rparr>"

definition doc_b :: Query where
  "doc_b = \<lparr> query_id = ''b'', userId = ''u1'', question = ''Q2'', answer = ''A2'', policyArea = HR,
          sources = SourcesArray [], createdAt = Some 1000, itExpertResponse = None,
          hrExpertResponse = None, itContext = None, hrContext = None \<rparr>"

definition doc_c :: Query where
  "doc_c = \<lparr> query_id = ''c'', userId = ''u2'', question = ''Q3'', answer = ''A3'', policyArea = General,
          sources = SourcesString ''hr.txt'', createdAt = Some 3000, itExpertResponse = None,
          hrExpertResponse = None, itContext = None, hrContext = None \<rparr>"

definition doc_d :: Query where
  "doc_d = \<lparr> query_id = ''d'', userId = ''u1'', question = ''Q4'', answer = ''A4'', policyArea = General,
          sources = SourcesString ''hr.txt'', createdAt = None, itExpertResponse = None,
          hrExpertResponse = None, itContext = None, hrContext = None \<rparr>"

definition doc_e :: Query where
  "doc_e = \<lparr> query_id = ''e'', userId = ''u1'', question = ''Q5'', answer = ''A5'', policyArea = General,
          sources = SourcesString ''hr.txt'', createdAt = Some 2000, itExpertResponse = None,
          hrExpertResponse = None, itContext = None, hrContext = None \<rparr>"

definition doc_n :: Query where
  "doc_n = \<lparr> query_id = ''n'', userId = ''u1'', question = ''Q6'', answer = ''A6'', policyArea = General,
          sources = SourcesString ''hr.txt'', createdAt = Some (- 5), itExpertResponse = None,
          hrExpertResponse = None, itContext = None, hrContext = None \<rparr>"

definition store :: "Query list \<Rightarrow> world" where
  "store c = \<lparr> queries = c, requests = [], revalidated = [] \<rparr>"

section \<open>Properties of handleQuery and addQueryToHistory\<close>

text \<open>
  What \<^verbatim>\<open>handleQuery\<close> does once both form fields are non-empty and the backend has
  answered with a body \<open>d\<close>: one case for each outcome of the history write.
\<close>

lemma handleQuery_backend_ok:
  assumes "fd ''question'' = Some q" "q \<noteq> []" "fd ''userId'' = Some uid" "uid \<noteq> []"
    and "fetch e \<lparr> req_question = q, req_user_id = uid \<rparr> = OkData d"
  shows "handleQuery e w fd =
    (case addDoc e of
       None \<Rightarrow> (w\<lparr>requests := requests w @ [\<lparr> req_question = q, req_user_id = uid \<rparr>]\<rparr>,
                \<lparr> result = None, error = Some ''Failed to save query to history.'' \<rparr>)
     | Some i \<Rightarrow>
         (w\<lparr>requests := requests w @ [\<lparr> req_question = q, req_user_id = uid \<rparr>],
            queries := queries w @
              [docData (now e) uid q (d_answer d) (attributed_area d) (Some (sources_or_empty (d_sources d)))
                 (Some \<lparr> df_itExpertResponse = d_it_expert_response d,
                         df_hrExpertResponse = d_hr_expert_response d,
                         df_itContext = d_it_context d, df_hrContext = d_hr_context d \<rparr>) i],
            revalidated := revalidated w @ [''/dashboard'']\<rparr>,
          \<lparr> result = Some \<lparr> res_question = q, res_answer = d_answer d,
                             res_policyArea = attributed_area d,
                             res_sources = sources_or_empty (d_sources d),
                             res_it_context = d_it_context d, res_hr_context = d_hr_context d \<rparr>,
            error = None \<rparr>))"
  using assms
  by (simp add: handleQuery_def try_block_def addQueryToHistory_def Let_def split: option.splits)

lemma attributed_area_IT:
  "attributed_area d = IT \<longleftrightarrow>
     context_length (d_hr_context d) < context_length (d_it_context d) \<and> 0 < context_length (d_it_context d)"
  by (simp add: attributed_area_def Let_def)

lemma attributed_area_HR:
  "attributed_area d = HR \<longleftrightarrow>
     context_length (d_it_context d) < context_length (d_hr_context d) \<and> 0 < context_length (d_hr_context d)"
  by (auto simp add: attributed_area_def Let_def)

lemma attributed_area_General:
  "attributed_area d = General \<longleftrightarrow>
     \<not> (context_length (d_hr_context d) < context_length (d_it_context d) \<and> 0 < context_length (d_it_context d))
   \<and> \<not> (context_length (d_it_context d) < context_length (d_hr_context d) \<and> 0 < context_length (d_hr_context d))"
  by (auto simp add: attributed_area_def Let_def)

lemma context_length_eq:
  "context_length v = (case v of None \<Rightarrow> 0 | Some xs \<Rightarrow> length xs)"
  by (cases v) simp_all

lemma sample_form_fields:
  "sample_form ''question'' = Some ''Is a VPN required?''" "sample_form ''userId'' = Some ''u1''"
  by (simp_all add: sample_form_def)

text \<open>
  Claim C2. For every backend response that \<^verbatim>\<open>handleQuery\<close> processes, the policy area
  it attributes (returned in the result and stored in the history record) is decided by the
  lengths of the IT and HR context lists alone, a missing list counting as length 0: it is
  \<open>IT\<close> exactly when the IT list is strictly longer than the HR list and non-empty,
  \<open>HR\<close> exactly when the HR list is strictly longer than the IT list and non-empty, and
  \<open>General\<close> in every other case.
\<close>

theorem handleQuery_policy_area_by_context_lengths:
  assumes "fd ''question'' = Some q" "q \<noteq> []" "fd ''userId'' = Some uid" "uid \<noteq> []"
    and "fetch e \<lparr> req_question = q, req_user_id = uid \<rparr> = OkData d"
    and "addDoc e = Some i"
    and "itLength = (case d_it_context d of None \<Rightarrow> 0 | Some xs \<Rightarrow> length xs)"
    and "hrLength = (case d_hr_context d of None \<Rightarrow> 0 | Some xs \<Rightarrow> length xs)"
  shows "\<exists>r h. result (snd (handleQuery e w fd)) = Some r
           \<and> queries (fst (handleQuery e w fd)) = queries w @ [h]
           \<and> policyArea h = res_policyArea r
           \<and> (res_policyArea r = IT \<longleftrightarrow> hrLength < itLength \<and> 0 < itLength)
           \<and> (res_policyArea r = HR \<longleftrightarrow> itLength < hrLength \<and> 0 < hrLength)
           \<and> (res_policyArea r = General \<longleftrightarrow>
                \<not> (hrLength < itLength \<and> 0 < itLength) \<and> \<not> (itLength < hrLength \<and> 0 < hrLength))"
proof -
  have hq: "handleQuery e w fd =
      (w\<lparr>requests := requests w @ [\<lparr> req_question = q, req_user_id = uid \<rparr>],
         queries := queries w @
           [docData (now e) uid q (d_answer d) (attributed_area d) (Some (sources_or_empty (d_sources d)))
              (Some \<lparr> df_itExpertResponse = d_it_expert_response d,
                      df_hrExpertResponse = d_hr_expert_response d,
                      df_itContext = d_it_context d, df_hrContext = d_hr_context d \<rparr>) i],
         revalidated := revalidated w @ [''/dashboard'']\<rparr>,
       \<lparr> result = Some \<lparr> res_question = q, res_answer = d_answer d,
                          res_policyArea = attributed_area d,
                          res_sources = sources_or_empty (d_sources d),
                          res_it_context = d_it_context d, res_hr_context = d_hr_context d \<rparr>,
         error = None \<rparr>)"
    using handleQuery_backend_ok [OF assms(1-5), of w] assms(6) by simp
  have lengths: "context_length (d_it_context d) = itLength" "context_length (d_hr_context d) = hrLength"
    by (simp_all add: assms(7,8) context_length_eq)
  show ?thesis
    unfolding hq
    using attributed_area_IT [of d] attributed_area_HR [of d] attributed_area_General [of d]
    by (simp add: docData_def lengths)
qed

theorem handleQuery_policy_area_by_context_lengths_witness:
  "\<exists>r h. result (snd (handleQuery longer_env empty_world sample_form)) = Some r
     \<and> queries (fst (handleQuery longer_env empty_world sample_form)) = [h]
     \<and> map_option length (d_it_context longer_data) = Some 2
     \<and> map_option length (d_hr_context longer_data) = Some 1
     \<and> policyArea h = IT \<and> res_policyArea r = IT"
proof -
  have f: "fetch longer_env \<lparr> req_question = ''Is a VPN required?'', req_user_id = ''u1'' \<rparr>
             = OkData longer_data"
    by (simp add: longer_env_def)
  have a: "addDoc longer_env = Some ''id3''"
    by (simp add: longer_env_def)
  have l: "(2::nat) = (case d_it_context longer_data of None \<Rightarrow> 0 | Some xs \<Rightarrow> length xs)"
    "(1::nat) = (case d_hr_context longer_data of None \<Rightarrow> 0 | Some xs \<Rightarrow> length xs)"
    by (simp_all add: longer_data_def)
  show ?thesis
    using handleQuery_policy_area_by_context_lengths
      [OF sample_form_fields(1) _ sample_form_fields(2) _ f a l, of empty_world]
    by (auto simp add: longer_data_def empty_world_def)
qed

text \<open>
  Claim C9. Two invocations of \<^verbatim>\<open>handleQuery\<close> whose backend responses have IT context
  lists of equal length and HR context lists of equal length attribute the same policy
  area, whatever the questions, user ids, answers and snippets are.
\<close>

theorem policy_area_depends_only_on_context_lengths:
  assumes "fd1 ''question'' = Some q1" "q1 \<noteq> []" "fd1 ''userId'' = Some uid1" "uid1 \<noteq> []"
    and "fetch e1 \<lparr> req_question = q1, req_user_id = uid1 \<rparr> = OkData d1"
    and "addDoc e1 = Some i1"
    and "fd2 ''question'' = Some q2" "q2 \<noteq> []" "fd2 ''userId'' = Some uid2" "uid2 \<noteq> []"
    and "fetch e2 \<lparr> req_question = q2, req_user_id = uid2 \<rparr> = OkData d2"
    and "addDoc e2 = Some i2"
    and "context_length (d_it_context d1) = context_length (d_it_context d2)"
    and "context_length (d_hr_context d1) = context_length (d_hr_context d2)"
  shows "\<exists>r1 r2. result (snd (handleQuery e1 w1 fd1)) = Some r1
           \<and> result (snd (handleQuery e2 w2 fd2)) = Some r2
           \<and> res_policyArea r1 = res_policyArea r2
           \<and> policyArea (last (queries (fst (handleQuery e1 w1 fd1)))) =
               policyArea (last (queries (fst (handleQuery e2 w2 fd2))))"
proof -
  have "attributed_area d1 = attributed_area d2"
    using assms(13,14) by (simp add: attributed_area_def)
  then show ?thesis
    using handleQuery_backend_ok [OF assms(1-5), of w1] handleQuery_backend_ok [OF assms(7-11), of w2]
      assms(6,12)
    by (simp add: docData_def)
qed

theorem policy_area_depends_only_on_context_lengths_witness:
  "\<exists>r1 r2. result (snd (handleQuery (sample_env (Some ''id1'')) empty_world sample_form)) = Some r1
      \<and> result (snd (handleQuery other_env empty_world other_form)) = Some r2
      \<and> res_question r1 \<noteq> res_question r2 \<and> res_answer r1 \<noteq> res_answer r2
      \<and> res_it_context r1 \<noteq> res_it_context r2
      \<and> res_policyArea r1 = res_policyArea r2"
proof -
  have f1: "fetch (sample_env (Some ''id1'')) \<lparr> req_question = ''Is a VPN required?'', req_user_id = ''u1'' \<rparr>
             = OkData sample_data"
    by (simp add: sample_env_def)
  have a1: "addDoc (sample_env (Some ''id1'')) = Some ''id1''"
    by (simp add: sample_env_def)
  have f2: "fetch other_env \<lparr> req_question = ''Badges?'', req_user_id = ''u2'' \<rparr> = OkData other_data"
    by (simp add: other_env_def)
  have a2: "addDoc other_env = Some ''id2''"
    by (simp add: other_env_def)
  have o: "other_form ''question'' = Some ''Badges?''" "other_form ''userId'' = Some ''u2''"
    by (simp_all add: other_form_def)
  have l: "context_length (d_it_context sample_data) = context_length (d_it_context other_data)"
    "context_length (d_hr_context sample_data) = context_length (d_hr_context other_data)"
    by (simp_all add: sample_data_def other_data_def)
  have "\<exists>r1 r2. result (snd (handleQuery (sample_env (Some ''id1'')) empty_world sample_form)) = Some r1
      \<and> result (snd (handleQuery other_env empty_world other_form)) = Some r2
      \<and> res_policyArea r1 = res_policyArea r2"
    using policy_area_depends_only_on_context_lengths
      [OF sample_form_fields(1) _ sample_form_fields(2) _ f1 a1 o(1) _ o(2) _ f2 a2 l,
       of empty_world empty_world]
    by auto
  then show ?thesis
    using handleQuery_backend_ok [OF sample_form_fields(1) _ sample_form_fields(2) _ f1, of empty_world]
      handleQuery_backend_ok [OF o(1) _ o(2) _ f2, of empty_world] a1 a2
    by (auto simp add: sample_data_def other_data_def)
qed

text \<open>
  Claim C10, as stated, fails: the question is checked first, so an invocation whose user
  id is empty and whose question is empty too is answered with the question's message, not
  with the login message.
\<close>

theorem handleQuery_login_error_counterexample:
  "snd (handleQuery (sample_env None) empty_world blank_form)
     \<noteq> \<lparr> result = None, error = Some ''You must be logged in to ask a question.'' \<rparr>"
  by (simp add: handleQuery_def blank_form_def)

text \<open>
  Claim C10, amended. An invocation whose question field is empty or missing returns
  \<^verbatim>\<open>{ result: null, error: 'Please enter a question.' }\<close>; an invocation whose question
  is non-empty and whose user id is empty or missing returns
  \<^verbatim>\<open>{ result: null, error: 'You must be logged in to ask a question.' }\<close>. In both cases
  the state is unchanged: no backend request is made and no history record is written.
\<close>

theorem handleQuery_validates_before_side_effects:
  "((fd ''question'' = None \<or> fd ''question'' = Some [])
      \<longrightarrow> handleQuery e w fd = (w, \<lparr> result = None, error = Some ''Please enter a question.'' \<rparr>))
   \<and> ((\<exists>q. fd ''question'' = Some q \<and> q \<noteq> []) \<and> (fd ''userId'' = None \<or> fd ''userId'' = Some [])
      \<longrightarrow> handleQuery e w fd =
            (w, \<lparr> result = None, error = Some ''You must be logged in to ask a question.'' \<rparr>))"
proof (intro conjI impI)
  assume "fd ''question'' = None \<or> fd ''question'' = Some []"
  then have "truthy_string (fd ''question'') = None"
    by auto
  then show "handleQuery e w fd = (w, \<lparr> result = None, error = Some ''Please enter a question.'' \<rparr>)"
    by (simp add: handleQuery_def)
next
  assume h: "(\<exists>q. fd ''question'' = Some q \<and> q \<noteq> [])
               \<and> (fd ''userId'' = None \<or> fd ''userId'' = Some [])"
  then obtain q where "fd ''question'' = Some q" "q \<noteq> []"
    by blast
  then have "truthy_string (fd ''question'') = Some q"
    by simp
  moreover from h have "truthy_string (fd ''userId'') = None"
    by auto
  ultimately show "handleQuery e w fd =
      (w, \<lparr> result = None, error = Some ''You must be logged in to ask a question.'' \<rparr>)"
    by (simp add: handleQuery_def)
qed

theorem handleQuery_validates_before_side_effects_witness:
  "handleQuery (sample_env (Some ''id1'')) empty_world [''userId'' \<mapsto> ''u1'']
     = (empty_world, \<lparr> result = None, error = Some ''Please enter a question.'' \<rparr>)
   \<and> handleQuery (sample_env (Some ''id1'')) empty_world [''question'' \<mapsto> ''Is a VPN required?'']
     = (empty_world, \<lparr> result = None, error = Some ''You must be logged in to ask a question.'' \<rparr>)"
  using handleQuery_validates_before_side_effects
      [of "[''userId'' \<mapsto> ''u1'']" "sample_env (Some ''id1'')" empty_world]
    handleQuery_validates_before_side_effects
      [of "[''question'' \<mapsto> ''Is a VPN required?'']" "sample_env (Some ''id1'')" empty_world]
  by simp

text \<open>
  Claim C1, as stated, fails: the history write is awaited inside the \<^verbatim>\<open>try\<close> block, so
  when it throws after the backend has answered, the \<^verbatim>\<open>catch\<close> block returns a null
  result.
\<close>

theorem history_write_failure_discards_answer_counterexample:
  "fetch (sample_env None) \<lparr> req_question = ''Is a VPN required?'', req_user_id = ''u1'' \<rparr> = OkData sample_data
   \<and> addDoc (sample_env None) = None
   \<and> result (snd (handleQuery (sample_env None) empty_world sample_form)) = None"
  by (simp add: handleQuery_def try_block_def addQueryToHistory_def sample_env_def sample_form_def)

text \<open>
  Claim C1, amended. When the backend call succeeds and the history write throws,
  \<^verbatim>\<open>handleQuery\<close> returns a null result with the error
  \<^verbatim>\<open>'Failed to save query to history.'\<close>; the request has been made, and no history
  record and no revalidation have happened.
\<close>

theorem history_write_failure_returns_error:
  assumes "fd ''question'' = Some q" "q \<noteq> []" "fd ''userId'' = Some uid" "uid \<noteq> []"
    and "fetch e \<lparr> req_question = q, req_user_id = uid \<rparr> = OkData d"
    and "addDoc e = None"
  shows "handleQuery e w fd =
           (w\<lparr>requests := requests w @ [\<lparr> req_question = q, req_user_id = uid \<rparr>]\<rparr>,
            \<lparr> result = None, error = Some ''Failed to save query to history.'' \<rparr>)"
  using handleQuery_backend_ok [OF assms(1-5), of w] assms(6) by simp

theorem history_write_failure_returns_error_witness:
  "handleQuery (sample_env None) empty_world sample_form =
     (empty_world\<lparr>requests := [\<lparr> req_question = ''Is a VPN required?'', req_user_id = ''u1'' \<rparr>]\<rparr>,
      \<lparr> result = None, error = Some ''Failed to save query to history.'' \<rparr>)"
proof -
  have f: "fetch (sample_env None) \<lparr> req_question = ''Is a VPN required?'', req_user_id = ''u1'' \<rparr>
             = OkData sample_data"
    by (simp add: sample_env_def)
  have a: "addDoc (sample_env None) = None"
    by (simp add: sample_env_def)
  show ?thesis
    using history_write_failure_returns_error
      [OF sample_form_fields(1) _ sample_form_fields(2) _ f a, of empty_world]
    by (simp add: empty_world_def)
qed

text \<open>What \<^verbatim>\<open>addQueryToHistory\<close> does when \<^verbatim>\<open>addDoc\<close> resolves with the id \<open>i\<close>.\<close>

lemma addQueryToHistory_resolves:
  "addDoc e = Some i \<Longrightarrow>
   addQueryToHistory e w uid q a p srcs df =
     (w\<lparr>queries := queries w @ [docData (now e) uid q a p srcs df i]\<rparr>, Inr i)"
  by (simp add: addQueryToHistory_def)

text \<open>
  Claim C7. The stored \<^verbatim>\<open>sources\<close> field is always a list: \<^verbatim>\<open>addQueryToHistory\<close>
  stores an array argument unchanged, wraps a non-empty string argument into a one-element
  list, and stores the empty list for an empty or absent value; and \<^verbatim>\<open>handleQuery\<close>
  returns \<^verbatim>\<open>sources = []\<close> when the backend response carries no sources field.
\<close>

theorem sources_normalized_to_list:
  "(addDoc e = Some i \<longrightarrow>
      (\<exists>h xs. queries (fst (addQueryToHistory e w uid q a p srcs df)) = queries w @ [h]
          \<and> sources h = SourcesArray xs
          \<and> (\<forall>ys. srcs = Some (SourcesArray ys) \<longrightarrow> xs = ys)
          \<and> (\<forall>s. srcs = Some (SourcesString s) \<and> s \<noteq> [] \<longrightarrow> xs = [s])
          \<and> (srcs = Some (SourcesString []) \<or> srcs = None \<longrightarrow> xs = [])))
   \<and> (fd ''question'' = Some q' \<and> q' \<noteq> [] \<and> fd ''userId'' = Some uid' \<and> uid' \<noteq> []
        \<and> fetch e \<lparr> req_question = q', req_user_id = uid' \<rparr> = OkData d
        \<and> d_sources d = None \<and> addDoc e = Some i \<longrightarrow>
      (\<exists>r. result (snd (handleQuery e w fd)) = Some r \<and> res_sources r = SourcesArray []))"
proof (intro conjI impI)
  assume a: "addDoc e = Some i"
  show "\<exists>h xs. queries (fst (addQueryToHistory e w uid q a p srcs df)) = queries w @ [h]
          \<and> sources h = SourcesArray xs
          \<and> (\<forall>ys. srcs = Some (SourcesArray ys) \<longrightarrow> xs = ys)
          \<and> (\<forall>s. srcs = Some (SourcesString s) \<and> s \<noteq> [] \<longrightarrow> xs = [s])
          \<and> (srcs = Some (SourcesString []) \<or> srcs = None \<longrightarrow> xs = [])"
    unfolding addQueryToHistory_resolves [OF a]
    by (auto simp add: docData_def)
next
  assume h: "fd ''question'' = Some q' \<and> q' \<noteq> [] \<and> fd ''userId'' = Some uid' \<and> uid' \<noteq> []
        \<and> fetch e \<lparr> req_question = q', req_user_id = uid' \<rparr> = OkData d
        \<and> d_sources d = None \<and> addDoc e = Some i"
  then show "\<exists>r. result (snd (handleQuery e w fd)) = Some r \<and> res_sources r = SourcesArray []"
    using handleQuery_backend_ok [of fd q' uid' e d w] by simp
qed

theorem sources_normalized_to_list_witness:
  "(\<exists>h. queries (fst (addQueryToHistory (sample_env (Some ''id1'')) empty_world ''u1''
            ''Is a VPN required?'' ''Use the VPN.'' IT (Some (SourcesString ''it.pdf'')) None)) = [h]
        \<and> sources h = SourcesArray [''it.pdf''])
   \<and> (\<exists>r. result (snd (handleQuery (sample_env (Some ''id1'')) empty_world sample_form)) = Some r
        \<and> res_sources r = SourcesArray [])"
proof -
  have a: "addDoc (sample_env (Some ''id1'')) = Some ''id1''"
    by (simp add: sample_env_def)
  have f: "fetch (sample_env (Some ''id1'')) \<lparr> req_question = ''Is a VPN required?'', req_user_id = ''u1'' \<rparr>
             = OkData sample_data"
    by (simp add: sample_env_def)
  have n: "d_sources sample_data = None"
    by (simp add: sample_data_def)
  show ?thesis
    using sources_normalized_to_list [of "sample_env (Some ''id1'')" "''id1''" empty_world "''u1''"
            "''Is a VPN required?''" "''Use the VPN.''" IT "Some (SourcesString ''it.pdf'')" None
            sample_form "''Is a VPN required?''" "''u1''" sample_data]
      a f n sample_form_fields
    by (auto simp add: empty_world_def)
qed

text \<open>
  Claim C3, as stated, fails: each of the four debate-flow fields is copied under its own
  \<^verbatim>\<open>if\<close>, so a record can carry an area's context list without that area's expert
  response.
\<close>

theorem debate_group_invariant_counterexample:
  "queries (fst (addQueryToHistory (sample_env (Some ''id1'')) empty_world ''u1''
      ''Is a VPN required?'' ''Use the VPN.'' IT (Some (SourcesArray [])) (Some sample_debateFlow)))
     = [sample_record]
   \<and> itContext sample_record = Some [''VPN required for public Wi-Fi'']
   \<and> itExpertResponse sample_record = None
   \<and> \<not> debate_group_invariant sample_record"
  by (simp add: addQueryToHistory_def sample_env_def empty_world_def docData_def sample_debateFlow_def
      debate_group_invariant_def sample_record_def)

text \<open>
  Claim C3, amended. In every history record written by \<^verbatim>\<open>addQueryToHistory\<close> each of
  the four debate-flow fields is present or absent on its own: an expert response is
  stored exactly when the \<^verbatim>\<open>debateFlow\<close> argument gives a non-empty string for it, a
  context list is stored exactly when \<^verbatim>\<open>debateFlow\<close> gives a list for it (empty or
  not), and all four are absent when \<^verbatim>\<open>debateFlow\<close> is absent.
\<close>

theorem debate_fields_written_independently:
  assumes "addDoc e = Some i"
  shows "\<exists>h. queries (fst (addQueryToHistory e w uid q a p srcs df)) = queries w @ [h]
     \<and> (df = None \<longrightarrow> itExpertResponse h = None \<and> hrExpertResponse h = None
                       \<and> itContext h = None \<and> hrContext h = None)
     \<and> (\<forall>f. df = Some f \<longrightarrow>
            itExpertResponse h = (if df_itExpertResponse f = Some [] then None else df_itExpertResponse f)
          \<and> hrExpertResponse h = (if df_hrExpertResponse f = Some [] then None else df_hrExpertResponse f)
          \<and> itContext h = df_itContext f
          \<and> hrContext h = df_hrContext f)"
proof -
  have t: "truthy_string v = (if v = Some [] then None else v)" for v
    by (cases v) auto
  show ?thesis
    unfolding addQueryToHistory_resolves [OF assms]
    by (simp add: docData_def t)
qed

theorem debate_fields_written_independently_witness:
  "\<exists>h. queries (fst (addQueryToHistory (sample_env (Some ''id1'')) empty_world ''u1''
            ''Is a VPN required?'' ''Use the VPN.'' IT (Some (SourcesArray []))
            (Some \<lparr> df_itExpertResponse = Some ''Use it.'', df_hrExpertResponse = Some [],
                    df_itContext = None, df_hrContext = Some [] \<rparr>))) = [h]
       \<and> itExpertResponse h = Some ''Use it.'' \<and> hrExpertResponse h = None
       \<and> itContext h = None \<and> hrContext h = Some []"
proof -
  have a: "addDoc (sample_env (Some ''id1'')) = Some ''id1''"
    by (simp add: sample_env_def)
  show ?thesis
    using debate_fields_written_independently [OF a, of empty_world "''u1''"
            "''Is a VPN required?''" "''Use the VPN.''" IT "Some (SourcesArray [])"
            "Some \<lparr> df_itExpertResponse = Some ''Use it.'', df_hrExpertResponse = Some [],
                    df_itContext = None, df_hrContext = Some [] \<rparr>"]
    by (simp add: empty_world_def)
qed

section \<open>Properties of getUserQueryHistory\<close>

text \<open>
  With the comparator of \<^verbatim>\<open>getUserQueryHistory\<close>, the insertion step of the sort is the
  library's insertion by the key \<open>- millis_or_zero\<close>.
\<close>

lemma insert_sorted_by_createdAt_desc:
  "insert_sorted by_createdAt_desc a bs = insort_key (\<lambda>d. - millis_or_zero d) a bs"
  by (induction bs) (simp_all add: by_createdAt_desc_def)

lemma Array_sort_by_createdAt_desc:
  "Array_sort by_createdAt_desc xs = sort_key (\<lambda>d. - millis_or_zero d) xs"
  by (induction xs) (simp_all add: Array_sort_def sort_key_def insert_sorted_by_createdAt_desc)

lemma set_Array_sort_by_createdAt_desc: "set (Array_sort by_createdAt_desc xs) = set xs"
  by (simp add: Array_sort_by_createdAt_desc)

lemma sorted_Array_sort_by_createdAt_desc:
  "sorted_wrt (\<lambda>a b. millis_or_zero b \<le> millis_or_zero a) (Array_sort by_createdAt_desc xs)"
proof -
  have "sorted (map (\<lambda>d. - millis_or_zero d) (sort_key (\<lambda>d. - millis_or_zero d) xs))"
    by (rule sorted_sort_key)
  then show ?thesis
    by (simp add: Array_sort_by_createdAt_desc sorted_wrt_map)
qed

lemma set_getDocs_where: "set (getDocs_where c uid) = {d \<in> set c. userId d = uid}"
  by (auto simp add: getDocs_where_def)

lemma millis_or_zero_eq:
  "millis_or_zero a = (case createdAt a of None \<Rightarrow> 0 | Some t \<Rightarrow> t)"
  by (simp add: millis_or_zero_def split: option.splits)

text \<open>
  Claim C5, as stated, fails: a record without \<^verbatim>\<open>createdAt\<close> counts as timestamp 0,
  so it is placed before a record whose timestamp is less than 0 (a date before 1970),
  not last.
\<close>

theorem history_missing_createdAt_not_last_counterexample:
  "createdAt doc_d = None \<and> createdAt doc_n = Some (- 5)
   \<and> getUserQueryHistory (sample_env None) (store [doc_d, doc_n]) ''u1'' = Inr [doc_d, doc_n]
   \<and> last [doc_d, doc_n] \<noteq> doc_d"
  by (simp add: getUserQueryHistory_def sample_env_def store_def getDocs_where_def Array_sort_def
      by_createdAt_desc_def millis_or_zero_def doc_d_def doc_n_def)

text \<open>
  Claim C5, amended. The list returned by \<^verbatim>\<open>getUserQueryHistory\<close> is ordered most
  recent first: it is sorted in non-increasing order of \<^verbatim>\<open>createdAt\<close>, a record without
  \<^verbatim>\<open>createdAt\<close> counting as timestamp 0. Such a record therefore comes after every
  record whose timestamp is greater than 0 and before every record whose timestamp is
  less than 0.
\<close>

theorem history_most_recent_first:
  assumes "getDocs_resolves e"
  shows "\<exists>hs. getUserQueryHistory e w uid = Inr hs
       \<and> sorted_wrt (\<lambda>a b. (case createdAt b of None \<Rightarrow> 0 | Some t \<Rightarrow> t)
                          \<le> (case createdAt a of None \<Rightarrow> 0 | Some t \<Rightarrow> t)) hs
       \<and> (\<forall>i j t. i < j \<and> j < length hs \<and> createdAt (hs ! i) = None \<and> createdAt (hs ! j) = Some t
             \<longrightarrow> t \<le> 0)
       \<and> (\<forall>i j t. i < j \<and> j < length hs \<and> createdAt (hs ! i) = Some t \<and> createdAt (hs ! j) = None
             \<longrightarrow> 0 \<le> t)"
proof -
  define hs where "hs = Array_sort by_createdAt_desc (getDocs_where (queries w) uid)"
  have r: "getUserQueryHistory e w uid = Inr hs"
    using assms by (simp add: getUserQueryHistory_def hs_def)
  have s: "sorted_wrt (\<lambda>a b. (case createdAt b of None \<Rightarrow> 0 | Some t \<Rightarrow> t)
                          \<le> (case createdAt a of None \<Rightarrow> (0::int) | Some t \<Rightarrow> t)) hs"
    using sorted_Array_sort_by_createdAt_desc [of "getDocs_where (queries w) uid"]
    by (simp add: hs_def millis_or_zero_eq)
  have after: "t \<le> 0"
    if "i < j" "j < length hs" "createdAt (hs ! i) = None" "createdAt (hs ! j) = Some t" for i j t
    using sorted_wrt_nth_less [OF s that(1,2)] that(3,4) by simp
  have before: "0 \<le> t"
    if "i < j" "j < length hs" "createdAt (hs ! i) = Some t" "createdAt (hs ! j) = None" for i j t
    using sorted_wrt_nth_less [OF s that(1,2)] that(3,4) by simp
  from r s after before show ?thesis by blast
qed

theorem history_most_recent_first_witness:
  "getUserQueryHistory (sample_env None) (store [doc_n, doc_e, doc_d, doc_c, doc_b, doc_a]) ''u1''
     = Inr [doc_e, doc_a, doc_b, doc_d, doc_n]
   \<and> map createdAt [doc_e, doc_a, doc_b, doc_d, doc_n]
        = [Some 2000, Some 1000, Some 1000, None, Some (- 5)]
   \<and> sorted_wrt (\<lambda>a b. (case createdAt b of None \<Rightarrow> 0 | Some t \<Rightarrow> t)
                          \<le> (case createdAt a of None \<Rightarrow> 0 | Some t \<Rightarrow> t))
        [doc_e, doc_a, doc_b, doc_d, doc_n]"
proof -
  have r: "getDocs_resolves (sample_env None)"
    by (simp add: sample_env_def)
  have g: "getUserQueryHistory (sample_env None) (store [doc_n, doc_e, doc_d, doc_c, doc_b, doc_a]) ''u1''
             = Inr [doc_e, doc_a, doc_b, doc_d, doc_n]"
    by (simp add: getUserQueryHistory_def sample_env_def store_def getDocs_where_def Array_sort_def
        by_createdAt_desc_def millis_or_zero_def doc_a_def doc_b_def doc_c_def doc_d_def doc_e_def
        doc_n_def)
  show ?thesis
    using history_most_recent_first
      [OF r, of "store [doc_n, doc_e, doc_d, doc_c, doc_b, doc_a]" "''u1''"] g
    by (simp add: doc_a_def doc_b_def doc_d_def doc_e_def doc_n_def)
qed

text \<open>
  Claim C6. Every record returned by \<^verbatim>\<open>getUserQueryHistory(userId)\<close> has its
  \<^verbatim>\<open>userId\<close> field equal to the argument; the records returned are exactly the
  stored records of that user.
\<close>

theorem history_scoped_to_owner:
  assumes "getDocs_resolves e"
  shows "\<exists>hs. getUserQueryHistory e w uid = Inr hs
       \<and> (\<forall>h \<in> set hs. userId h = uid)
       \<and> set hs = {d \<in> set (queries w). userId d = uid}"
proof -
  define hs where "hs = Array_sort by_createdAt_desc (getDocs_where (queries w) uid)"
  have "getUserQueryHistory e w uid = Inr hs"
    using assms by (simp add: getUserQueryHistory_def hs_def)
  moreover have "set hs = {d \<in> set (queries w). userId d = uid}"
    by (simp add: hs_def set_Array_sort_by_createdAt_desc set_getDocs_where)
  ultimately show ?thesis by simp
qed

theorem history_scoped_to_owner_witness:
  "getUserQueryHistory (sample_env None) (store [doc_e, doc_d, doc_c, doc_b, doc_a]) ''u2''
     = Inr [doc_c]
   \<and> userId doc_c = ''u2''"
proof -
  have r: "getDocs_resolves (sample_env None)"
    by (simp add: sample_env_def)
  have g: "getUserQueryHistory (sample_env None) (store [doc_e, doc_d, doc_c, doc_b, doc_a]) ''u2''
             = Inr [doc_c]"
    by (simp add: getUserQueryHistory_def sample_env_def store_def getDocs_where_def Array_sort_def
        doc_a_def doc_b_def doc_c_def doc_d_def doc_e_def)
  show ?thesis
    using history_scoped_to_owner [OF r, of "store [doc_e, doc_d, doc_c, doc_b, doc_a]" "''u2''"] g
    by simp
qed

text \<open>
  Claim C8, as stated, fails: two records of one user with the same \<^verbatim>\<open>createdAt\<close>
  are returned in descending order of document id by the earlier version (the store's
  order under \<^verbatim>\<open>orderBy('createdAt', 'desc')\<close>) and in ascending order of document id by
  the current one (the stable sort keeps the order in which they were fetched).
\<close>

theorem history_versions_differ_counterexample:
  "createdAt doc_a \<noteq> None \<and> createdAt doc_b \<noteq> None
   \<and> getUserQueryHistory (sample_env None) (store [doc_a, doc_b]) ''u1'' = Inr [doc_a, doc_b]
   \<and> getUserQueryHistory_legacy (sample_env None) (store [doc_a, doc_b]) ''u1'' = Inr [doc_b, doc_a]
   \<and> [doc_a, doc_b] \<noteq> [doc_b, doc_a]"
  by (simp add: getUserQueryHistory_def getUserQueryHistory_legacy_def sample_env_def store_def
      getDocs_where_def getDocs_where_orderBy_createdAt_desc_def createdAt_and_id_def Array_sort_def
      by_createdAt_desc_def millis_or_zero_def doc_a_def doc_b_def)

lemma sorted_fst_of_sorted_pairs:
  "sorted (map g xs) \<Longrightarrow> sorted (map (\<lambda>x. fst (g x)) xs)"
  for g :: "'a \<Rightarrow> int \<times> string"
proof -
  assume "sorted (map g xs)"
  then have "sorted_wrt (\<lambda>x y. g x \<le> g y) xs"
    by (simp add: sorted_wrt_map)
  then have "sorted_wrt (\<lambda>x y. fst (g x) \<le> fst (g y)) xs"
    by (rule sorted_wrt_mono_rel [rotated]) (auto simp add: less_eq_prod_def)
  then show ?thesis
    by (simp add: sorted_wrt_map)
qed

text \<open>
  Claim C8, amended. For every store state in which each of the user's records has a
  \<^verbatim>\<open>createdAt\<close> timestamp and no two of the user's records have the same one, the
  earlier and the current version of \<^verbatim>\<open>getUserQueryHistory\<close>, when the store serves
  the query of each, return the same ordered list of records.
\<close>

theorem history_versions_agree_on_distinct_timestamps:
  assumes served: "getDocs_resolves e" "getDocs_resolves e'"
    and present: "\<forall>d \<in> set (queries w). userId d = uid \<longrightarrow> createdAt d \<noteq> None"
    and different: "distinct (map createdAt (filter (\<lambda>d. userId d = uid) (queries w)))"
  shows "\<exists>hs. getUserQueryHistory_legacy e w uid = Inr hs \<and> getUserQueryHistory e' w uid = Inr hs"
proof -
  define xs where "xs = filter (\<lambda>d. userId d = uid) (queries w)"
  define key where "key = (\<lambda>d. - millis_or_zero d)"
  define new where "new = sort_key key (sort_key query_id xs)"
  define old where "old = rev (sort_key createdAt_and_id xs)"
  have some: "createdAt d \<noteq> None" if "d \<in> set xs" for d
    using that present by (simp add: xs_def)
  have same_filter: "filter (\<lambda>d. userId d = uid \<and> createdAt d \<noteq> None) (queries w) = xs"
    unfolding xs_def by (rule filter_cong) (use present in auto)
  have dist: "distinct xs"
    using different distinct_map xs_def by blast
  have inj_created: "inj_on createdAt (set xs)"
    using different distinct_map xs_def by blast
  have inj_key: "inj_on key (set xs)"
  proof (rule inj_onI)
    fix a b
    assume ab: "a \<in> set xs" "b \<in> set xs" "key a = key b"
    obtain s t where st: "createdAt a = Some s" "createdAt b = Some t"
      using some ab(1,2) by blast
    with ab(3) have "s = t"
      by (simp add: key_def millis_or_zero_eq)
    with st have "createdAt a = createdAt b" by simp
    with inj_created ab(1,2) show "a = b"
      by (simp add: inj_on_def)
  qed
  have fst_key: "fst (createdAt_and_id d) = millis_or_zero d" for d
    by (simp add: createdAt_and_id_def millis_or_zero_eq split: option.splits)
  have sorted_new: "sorted (map key new)"
    unfolding new_def by (rule sorted_sort_key)
  have "sorted (map createdAt_and_id (sort_key createdAt_and_id xs))"
    by (rule sorted_sort_key)
  then have "sorted (map (\<lambda>d. fst (createdAt_and_id d)) (sort_key createdAt_and_id xs))"
    by (rule sorted_fst_of_sorted_pairs)
  then have "sorted_wrt (\<lambda>a b. millis_or_zero a \<le> millis_or_zero b) (sort_key createdAt_and_id xs)"
    by (simp add: sorted_wrt_map fst_key)
  then have sorted_old: "sorted (map key old)"
    by (simp add: old_def key_def sorted_wrt_map sorted_wrt_rev)
  have sets: "set old = set xs" "set new = set xs"
    by (simp_all add: old_def new_def)
  have dists: "distinct old" "distinct new"
    using dist by (simp_all add: old_def new_def)
  have "old = new"
  proof (rule map_sorted_distinct_set_unique [where f = key])
    show "inj_on key (set old \<union> set new)"
      using inj_key by (simp add: sets)
    show "sorted (map key old)" by (rule sorted_old)
    show "sorted (map key new)" by (rule sorted_new)
    show "distinct (map key old)"
      using dists(1) inj_key by (simp add: distinct_map sets)
    show "distinct (map key new)"
      using dists(2) inj_key by (simp add: distinct_map sets)
    show "set old = set new" by (simp add: sets)
  qed
  moreover have "getDocs_where_orderBy_createdAt_desc (queries w) uid = old"
    unfolding getDocs_where_orderBy_createdAt_desc_def same_filter old_def ..
  moreover have "Array_sort by_createdAt_desc (getDocs_where (queries w) uid) = new"
    by (simp add: Array_sort_by_createdAt_desc getDocs_where_def new_def key_def xs_def)
  ultimately show ?thesis
    using served by (simp add: getUserQueryHistory_def getUserQueryHistory_legacy_def)
qed

theorem history_versions_agree_on_distinct_timestamps_witness:
  "getUserQueryHistory_legacy (sample_env None) (store [doc_e, doc_c, doc_a]) ''u1'' = Inr [doc_e, doc_a]
   \<and> getUserQueryHistory (sample_env None) (store [doc_e, doc_c, doc_a]) ''u1'' = Inr [doc_e, doc_a]"
proof -
  have p: "\<forall>d \<in> set (queries (store [doc_e, doc_c, doc_a])). userId d = ''u1'' \<longrightarrow> createdAt d \<noteq> None"
    by (simp add: store_def doc_a_def doc_c_def doc_e_def)
  have d: "distinct (map createdAt (filter (\<lambda>d. userId d = ''u1'') (queries (store [doc_e, doc_c, doc_a]))))"
    by (simp add: store_def doc_a_def doc_c_def doc_e_def)
  have g: "getUserQueryHistory (sample_env None) (store [doc_e, doc_c, doc_a]) ''u1'' = Inr [doc_e, doc_a]"
    by (simp add: getUserQueryHistory_def sample_env_def store_def getDocs_where_def Array_sort_def
        by_createdAt_desc_def millis_or_zero_def doc_a_def doc_c_def doc_e_def)
  have r: "getDocs_resolves (sample_env None)"
    by (simp add: sample_env_def)
  show ?thesis
    using history_versions_agree_on_distinct_timestamps [OF r r p d] g
    by simp
qed

section \<open>Properties of the chunker\<close>

text \<open>The four cases of a step of \<^verbatim>\<open>accumulate\<close>.\<close>

lemma accumulate_Nil:
  "accumulate maxLen overlap pre new [] = (if new = [] then [] else [pre @ new])"
  by (simp add: accumulate.simps(1))

lemma accumulate_fits:
  "length pre + length new + length s \<le> maxLen \<Longrightarrow>
   accumulate maxLen overlap pre new (s # ss) = accumulate maxLen overlap pre (new @ s) ss"
  by (subst accumulate.simps(2)) simp

lemma accumulate_emit:
  "\<not> length pre + length new + length s \<le> maxLen \<Longrightarrow> new \<noteq> [] \<Longrightarrow>
   accumulate maxLen overlap pre new (s # ss) =
     (pre @ new) # accumulate maxLen overlap (trailing maxLen overlap (pre @ new)) [] (s # ss)"
  by (subst accumulate.simps(2)) simp

lemma accumulate_hard:
  "\<not> length pre + length s \<le> maxLen \<Longrightarrow> length pre < maxLen \<Longrightarrow>
   accumulate maxLen overlap pre [] (s # ss) =
     (pre @ take (maxLen - length pre) s)
       # accumulate maxLen overlap (trailing maxLen overlap (pre @ take (maxLen - length pre) s)) []
           (drop (maxLen - length pre) s # ss)"
  by (subst accumulate.simps(2)) simp

lemma accumulate_full:
  "\<not> length pre + length s \<le> maxLen \<Longrightarrow> \<not> length pre < maxLen \<Longrightarrow>
   accumulate maxLen overlap pre [] (s # ss) =
     (pre @ s) # accumulate maxLen overlap (trailing maxLen overlap (pre @ s)) [] ss"
  by (subst accumulate.simps(2)) simp

lemma in_butlast_Cons:
  "c \<in> set (butlast (x # xs)) \<Longrightarrow> c = x \<or> c \<in> set (butlast xs)"
  by (simp split: if_splits)

text \<open>
  Coverage: the text still to be chunked is the concatenation of pieces, one for each
  chunk and each the end of its chunk.
\<close>

lemma accumulate_covers:
  "\<exists>ps. concat ps = new @ concat ss
      \<and> list_all2 suffix ps (accumulate maxLen overlap pre new ss)"
proof (induction maxLen overlap pre new ss rule: accumulate.induct)
  case (1 maxLen overlap pre new)
  show ?case
  proof (cases "new = []")
    case True
    then show ?thesis by (simp add: accumulate_Nil)
  next
    case False
    have "concat [new] = new @ concat []" by simp
    moreover have "list_all2 suffix [new] (accumulate maxLen overlap pre new [])"
      using False by (simp add: accumulate_Nil suffix_def)
    ultimately show ?thesis by blast
  qed
next
  case (2 maxLen overlap pre new s ss)
  let ?room = "maxLen - length pre"
  consider (fits) "length pre + length new + length s \<le> maxLen"
    | (emit) "\<not> length pre + length new + length s \<le> maxLen" "new \<noteq> []"
    | (hard) "\<not> length pre + length new + length s \<le> maxLen" "new = []" "length pre < maxLen"
    | (full) "\<not> length pre + length new + length s \<le> maxLen" "new = []" "\<not> length pre < maxLen"
    by blast
  then show ?case
  proof cases
    case fits
    obtain ps where "concat ps = (new @ s) @ concat ss"
      "list_all2 suffix ps (accumulate maxLen overlap pre (new @ s) ss)"
      using "2.IH"(1) [OF fits] by blast
    with fits show ?thesis by (auto simp add: accumulate_fits)
  next
    case emit
    obtain ps where ps: "concat ps = [] @ concat (s # ss)"
      "list_all2 suffix ps
         (accumulate maxLen overlap (trailing maxLen overlap (pre @ new)) [] (s # ss))"
      using "2.IH"(2) [OF emit] by blast
    have "concat (new # ps) = new @ concat (s # ss)"
      using ps(1) by simp
    moreover have "list_all2 suffix (new # ps) (accumulate maxLen overlap pre new (s # ss))"
      using emit ps(2) by (simp add: accumulate_emit suffix_def)
    ultimately show ?thesis by blast
  next
    case hard
    obtain ps where ps: "concat ps = [] @ concat (drop ?room s # ss)"
      "list_all2 suffix ps
         (accumulate maxLen overlap (trailing maxLen overlap (pre @ take ?room s)) []
            (drop ?room s # ss))"
      using "2.IH"(3) [OF hard(1) _ hard(3)] hard(2) by blast
    have "concat (take ?room s # ps) = new @ concat (s # ss)"
      using ps(1) hard(2) by simp
    moreover have "list_all2 suffix (take ?room s # ps) (accumulate maxLen overlap pre new (s # ss))"
      using hard ps(2) by (simp add: accumulate_hard suffix_def)
    ultimately show ?thesis by blast
  next
    case full
    obtain ps where ps: "concat ps = [] @ concat ss"
      "list_all2 suffix ps (accumulate maxLen overlap (trailing maxLen overlap (pre @ s)) [] ss)"
      using "2.IH"(4) [OF full(1) _ full(3)] full(2) by blast
    have "concat (s # ps) = new @ concat (s # ss)"
      using ps(1) full(2) by simp
    moreover have "list_all2 suffix (s # ps) (accumulate maxLen overlap pre new (s # ss))"
      using full ps(2) by (simp add: accumulate_full suffix_def)
    ultimately show ?thesis by blast
  qed
qed

text \<open>The bound on the length of a chunk.\<close>

lemma length_trailing: "0 < maxLen \<Longrightarrow> length (trailing maxLen overlap seg) < maxLen"
  by (auto simp add: trailing_def)

lemma accumulate_bounded:
  "0 < maxLen \<Longrightarrow> length pre < maxLen \<Longrightarrow> length pre + length new \<le> maxLen \<Longrightarrow>
   c \<in> set (accumulate maxLen overlap pre new ss) \<Longrightarrow> length c \<le> maxLen"
proof (induction maxLen overlap pre new ss rule: accumulate.induct)
  case (1 maxLen overlap pre new)
  then show ?case by (simp add: accumulate_Nil split: if_splits)
next
  case (2 maxLen overlap pre new s ss)
  let ?room = "maxLen - length pre"
  consider (fits) "length pre + length new + length s \<le> maxLen"
    | (emit) "\<not> length pre + length new + length s \<le> maxLen" "new \<noteq> []"
    | (hard) "\<not> length pre + length new + length s \<le> maxLen" "new = []"
    by blast
  then show ?case
  proof cases
    case fits
    with "2.prems" have "c \<in> set (accumulate maxLen overlap pre (new @ s) ss)"
      by (simp add: accumulate_fits)
    with "2.IH"(1) [OF fits "2.prems"(1,2)] fits show ?thesis
      by simp
  next
    case emit
    with "2.prems"(4) have "c = pre @ new
        \<or> c \<in> set (accumulate maxLen overlap (trailing maxLen overlap (pre @ new)) [] (s # ss))"
      by (simp add: accumulate_emit)
    then show ?thesis
    proof
      assume "c = pre @ new"
      with "2.prems"(3) show ?thesis by simp
    next
      assume "c \<in> set (accumulate maxLen overlap (trailing maxLen overlap (pre @ new)) [] (s # ss))"
      with "2.IH"(2) [OF emit "2.prems"(1)] length_trailing [OF "2.prems"(1), of overlap "pre @ new"]
      show ?thesis by simp
    qed
  next
    case hard
    with "2.prems"(2,4) have "c = pre @ take ?room s
        \<or> c \<in> set (accumulate maxLen overlap (trailing maxLen overlap (pre @ take ?room s)) []
                      (drop ?room s # ss))"
      by (simp add: accumulate_hard)
    then show ?thesis
    proof
      assume "c = pre @ take ?room s"
      with "2.prems"(2) show ?thesis by simp
    next
      assume "c \<in> set (accumulate maxLen overlap (trailing maxLen overlap (pre @ take ?room s)) []
                      (drop ?room s # ss))"
      with "2.IH"(3) [OF hard(1) _ "2.prems"(2) "2.prems"(1)] hard(2)
        length_trailing [OF "2.prems"(1), of overlap "pre @ take ?room s"]
      show ?thesis by simp
    qed
  qed
qed

text \<open>
  Where chunks end: every sentence but the last ends with a sentence-ending character,
  and a chunk is emitted either after whole sentences or filled up to the limit.
\<close>

lemma split_from_sentence_ends:
  "s \<in> set (butlast (split_from cur t)) \<Longrightarrow> s \<noteq> [] \<and> sentence_end (last s)"
proof (induction t arbitrary: cur)
  case Nil
  then show ?case by (simp split: if_splits)
next
  case (Cons c cs)
  show ?case
  proof (cases "sentence_end c")
    case True
    with Cons.prems have "s = cur @ [c] \<or> s \<in> set (butlast (split_from [] cs))"
      by (simp split: if_splits)
    then show ?thesis
    proof
      assume "s = cur @ [c]"
      with True show ?thesis by simp
    next
      assume "s \<in> set (butlast (split_from [] cs))"
      then show ?thesis by (rule Cons.IH)
    qed
  next
    case False
    with Cons.prems have "s \<in> set (butlast (split_from (cur @ [c]) cs))"
      by simp
    then show ?thesis by (rule Cons.IH)
  qed
qed

lemma accumulate_cuts:
  "0 < maxLen \<Longrightarrow> length pre < maxLen \<Longrightarrow>
   (ss \<noteq> [] \<and> new \<noteq> [] \<longrightarrow> sentence_end (last new)) \<Longrightarrow>
   (\<forall>s \<in> set (butlast ss). s \<noteq> [] \<and> sentence_end (last s)) \<Longrightarrow>
   c \<in> set (butlast (accumulate maxLen overlap pre new ss)) \<Longrightarrow>
   length c = maxLen \<or> (c \<noteq> [] \<and> sentence_end (last c))"
proof (induction maxLen overlap pre new ss rule: accumulate.induct)
  case (1 maxLen overlap pre new)
  then show ?case by (simp add: accumulate_Nil split: if_splits)
next
  case (2 maxLen overlap pre new s ss)
  let ?room = "maxLen - length pre"
  have rest: "\<forall>x \<in> set (butlast ss). x \<noteq> [] \<and> sentence_end (last x)"
    using "2.prems"(4) by (simp split: if_splits)
  have first: "s \<noteq> [] \<and> sentence_end (last s)" if "ss \<noteq> []"
    using "2.prems"(4) that by simp
  consider (fits) "length pre + length new + length s \<le> maxLen"
    | (emit) "\<not> length pre + length new + length s \<le> maxLen" "new \<noteq> []"
    | (hard) "\<not> length pre + length new + length s \<le> maxLen" "new = []"
    by blast
  then show ?case
  proof cases
    case fits
    have "ss \<noteq> [] \<and> new @ s \<noteq> [] \<longrightarrow> sentence_end (last (new @ s))"
      using first by simp
    moreover have "c \<in> set (butlast (accumulate maxLen overlap pre (new @ s) ss))"
      using "2.prems"(5) fits by (simp add: accumulate_fits)
    ultimately show ?thesis
      using "2.IH"(1) [OF fits "2.prems"(1,2) _ rest] by blast
  next
    case emit
    let ?next = "accumulate maxLen overlap (trailing maxLen overlap (pre @ new)) [] (s # ss)"
    from "2.prems"(5) emit have "c \<in> set (butlast ((pre @ new) # ?next))"
      by (simp add: accumulate_emit)
    then have "c = pre @ new \<or> c \<in> set (butlast ?next)"
      by (rule in_butlast_Cons)
    then show ?thesis
    proof
      assume "c = pre @ new"
      with emit(2) "2.prems"(3) show ?thesis by simp
    next
      assume "c \<in> set (butlast ?next)"
      with "2.IH"(2) [OF emit "2.prems"(1) length_trailing [OF "2.prems"(1)] _ "2.prems"(4)]
      show ?thesis by simp
    qed
  next
    case hard
    let ?next = "accumulate maxLen overlap (trailing maxLen overlap (pre @ take ?room s)) []
                   (drop ?room s # ss)"
    have long: "?room < length s"
      using hard "2.prems"(2) by simp
    from "2.prems"(2,5) hard have "c \<in> set (butlast ((pre @ take ?room s) # ?next))"
      by (simp add: accumulate_hard)
    then have "c = pre @ take ?room s \<or> c \<in> set (butlast ?next)"
      by (rule in_butlast_Cons)
    then show ?thesis
    proof
      assume "c = pre @ take ?room s"
      with long "2.prems"(2) show ?thesis by simp
    next
      assume c: "c \<in> set (butlast ?next)"
      have "\<forall>x \<in> set (butlast (drop ?room s # ss)). x \<noteq> [] \<and> sentence_end (last x)"
        using rest first long by (simp add: last_drop)
      with "2.IH"(3) [OF hard(1) _ "2.prems"(2) "2.prems"(1) length_trailing [OF "2.prems"(1)]]
        hard(2) c
      show ?thesis by simp
    qed
  qed
qed

lemma concat_split_from: "concat (split_from cur t) = cur @ t"
  by (induction t arbitrary: cur) simp_all

lemma concat_split_sentences: "concat (split_sentences t) = t"
  by (simp add: split_sentences_def concat_split_from)

lemma covered_length:
  "list_all2 suffix ps cs \<Longrightarrow> length (concat ps) \<le> sum_list (map length cs)"
proof (induction rule: list_all2_induct)
  case Nil
  show ?case by simp
next
  case (Cons p ps c cs)
  from Cons(1) have "length p \<le> length c"
    by (rule suffix_length_le)
  with Cons.IH show ?case by simp
qed

lemma covered_set:
  "list_all2 suffix ps cs \<Longrightarrow> set (concat ps) \<subseteq> \<Union> (set ` set cs)"
proof (induction rule: list_all2_induct)
  case Nil
  show ?case by simp
next
  case (Cons p ps c cs)
  from Cons(1) have "set p \<subseteq> set c"
    by (rule set_mono_suffix)
  with Cons.IH show ?case by auto
qed

text \<open>
  A text with no sentence-ending character among its first \<open>n\<close> characters, and longer
  than \<open>n\<close>, begins with a sentence longer than \<open>n\<close>.
\<close>

lemma split_from_first:
  "cur \<noteq> [] \<or> t \<noteq> [] \<Longrightarrow> \<exists>s ss. split_from cur t = s # ss \<and> length cur \<le> length s"
proof (induction t arbitrary: cur)
  case Nil
  then show ?case by simp
next
  case (Cons c cs)
  show ?case
  proof (cases "sentence_end c")
    case True
    then show ?thesis by simp
  next
    case False
    obtain s ss where "split_from (cur @ [c]) cs = s # ss" "length (cur @ [c]) \<le> length s"
      using Cons.IH [of "cur @ [c]"] by auto
    with False show ?thesis by simp
  qed
qed

lemma split_from_long_first:
  "\<forall>c \<in> set (take n t). \<not> sentence_end c \<Longrightarrow> n < length t \<Longrightarrow>
   \<exists>s ss. split_from cur t = s # ss \<and> length cur + n < length s"
proof (induction t arbitrary: cur n)
  case Nil
  then show ?case by simp
next
  case (Cons c cs)
  show ?case
  proof (cases n)
    case 0
    show ?thesis
    proof (cases "sentence_end c")
      case True
      with 0 show ?thesis by simp
    next
      case False
      obtain s ss where "split_from (cur @ [c]) cs = s # ss" "length (cur @ [c]) \<le> length s"
        using split_from_first [of "cur @ [c]" cs] by auto
      with False 0 show ?thesis by simp
    qed
  next
    case (Suc m)
    with Cons.prems have c: "\<not> sentence_end c" and m: "\<forall>x \<in> set (take m cs). \<not> sentence_end x"
      "m < length cs"
      by simp_all
    obtain s ss where "split_from (cur @ [c]) cs = s # ss" "length (cur @ [c]) + m < length s"
      using Cons.IH [OF m, of "cur @ [c]"] by auto
    with c Suc show ?thesis by simp
  qed
qed

lemma chunk_long_first_sentence:
  assumes "\<not> whitespace_only D" "\<forall>c \<in> set (take maxLen D). \<not> sentence_end c"
    "maxLen < length D" "0 < maxLen"
  shows "\<exists>cs. chunk D maxLen overlap = take maxLen D # cs"
proof -
  obtain s ss where sp: "split_sentences D = s # ss" "maxLen < length s"
    using split_from_long_first [OF assms(2,3), of "[]"] by (auto simp add: split_sentences_def)
  have D: "D = s @ concat ss"
    using concat_split_sentences [of D] sp(1) by simp
  have c: "chunk D maxLen overlap = accumulate maxLen overlap [] [] (s # ss)"
    using assms(1) sp(1) by (simp add: chunk_def)
  have "accumulate maxLen overlap [] [] (s # ss) =
      take maxLen s # accumulate maxLen overlap (trailing maxLen overlap (take maxLen s)) []
        (drop maxLen s # ss)"
    using sp(2) assms(4) accumulate_hard [of "[]" s maxLen overlap ss] by simp
  moreover have "take maxLen s = take maxLen D"
    using sp(2) by (simp add: D)
  ultimately show ?thesis
    by (simp add: c)
qed

text \<open>The two character classes, written out.\<close>

lemma whitespace_only_iff:
  "whitespace_only D \<longleftrightarrow>
     set D \<subseteq> {CHR '' '', CHR 0x09, CHR 0x0A, CHR 0x0B, CHR 0x0C, CHR 0x0D}"
  by (auto simp add: whitespace_only_def list_all_iff is_space_def)

lemma sentence_end_iff: "sentence_end c \<longleftrightarrow> c \<in> {CHR ''.'', CHR ''!'', CHR ''?''}"
  by (auto simp add: sentence_end_def)

text \<open>Each chunk after the first begins with the characters repeated from the chunk before.\<close>

lemma accumulate_overlaps:
  "successively (\<lambda>c c'. prefix (trailing maxLen overlap c) c')
     (accumulate maxLen overlap pre new ss)
   \<and> (\<forall>c cs. accumulate maxLen overlap pre new ss = c # cs \<longrightarrow> prefix pre c)"
proof (induction maxLen overlap pre new ss rule: accumulate.induct)
  case (1 maxLen overlap pre new)
  show ?case by (simp add: accumulate_Nil)
next
  case (2 maxLen overlap pre new s ss)
  let ?room = "maxLen - length pre"
  let ?P = "\<lambda>c c'. prefix (trailing maxLen overlap c) c'"
  have step: "successively ?P (x # accumulate maxLen overlap (trailing maxLen overlap x) [] rest)"
    if "successively ?P (accumulate maxLen overlap (trailing maxLen overlap x) [] rest)
        \<and> (\<forall>c cs. accumulate maxLen overlap (trailing maxLen overlap x) [] rest = c # cs
              \<longrightarrow> prefix (trailing maxLen overlap x) c)"
    for x rest
    using that by (cases "accumulate maxLen overlap (trailing maxLen overlap x) [] rest") simp_all
  consider (fits) "length pre + length new + length s \<le> maxLen"
    | (emit) "\<not> length pre + length new + length s \<le> maxLen" "new \<noteq> []"
    | (hard) "\<not> length pre + length new + length s \<le> maxLen" "new = []" "length pre < maxLen"
    | (full) "\<not> length pre + length new + length s \<le> maxLen" "new = []" "\<not> length pre < maxLen"
    by blast
  then show ?case
  proof cases
    case fits
    with "2.IH"(1) [OF fits] show ?thesis
      by (simp add: accumulate_fits)
  next
    case emit
    from step [OF "2.IH"(2) [OF emit]] emit show ?thesis
      by (simp add: accumulate_emit)
  next
    case hard
    from step [OF "2.IH"(3) [OF hard(1) _ hard(3)]] hard show ?thesis
      by (simp add: accumulate_hard)
  next
    case full
    from step [OF "2.IH"(4) [OF full(1) _ full(3)]] full show ?thesis
      by (simp add: accumulate_full)
  qed
qed

text \<open>
  Claim C4, as stated, fails: a whitespace-only document yields the empty sequence, so
  the sum of the chunk lengths is 0 and less than the length of the document.
\<close>

theorem chunk_whitespace_only_counterexample:
  "chunk '' '' 500 100 = [] \<and> \<not> length '' '' \<le> sum_list (map length (chunk '' '' 500 100))"
  by (simp add: chunk_def whitespace_only_def is_space_def)

text \<open>
  Claim C4, amended. An empty or whitespace-only document \<open>D\<close> yields no chunk. For
  every other \<open>D\<close>, chunked with \<open>overlap > 0\<close>, the sum of the chunk lengths is at
  least the length of \<open>D\<close> and every character of \<open>D\<close> appears in a chunk: \<open>D\<close> is
  the concatenation of pieces, one per chunk and each the end of its chunk. With
  \<open>maxLen > 0\<close>, a sentence longer than \<open>maxLen\<close> is hard-split at the character limit
  and not dropped: no chunk is longer than \<open>maxLen\<close>, every chunk but the last either
  ends with the end of a sentence or has exactly \<open>maxLen\<close> characters, and when \<open>D\<close>
  is longer than \<open>maxLen\<close> and no sentence ends within its first \<open>maxLen\<close> characters,
  the first chunk is these \<open>maxLen\<close> characters. With \<open>overlap < maxLen\<close>, each chunk
  after the first begins with the last \<open>overlap\<close> characters of the chunk before it (with
  all of it when it is shorter).
\<close>

theorem chunk_covers_document:
  assumes "whitespace = {CHR '' '', CHR 0x09, CHR 0x0A, CHR 0x0B, CHR 0x0C, CHR 0x0D}"
    and "enders = {CHR ''.'', CHR ''!'', CHR ''?''}"
  shows "(set D \<subseteq> whitespace \<longrightarrow> chunk D maxLen overlap = [])
   \<and> (\<not> set D \<subseteq> whitespace \<and> 0 < overlap \<longrightarrow>
        length D \<le> sum_list (map length (chunk D maxLen overlap))
      \<and> set D \<subseteq> \<Union> (set ` set (chunk D maxLen overlap))
      \<and> (\<exists>ps. concat ps = D \<and> list_all2 suffix ps (chunk D maxLen overlap))
      \<and> (0 < maxLen \<longrightarrow>
            (\<forall>c \<in> set (chunk D maxLen overlap). length c \<le> maxLen)
          \<and> (\<forall>c \<in> set (butlast (chunk D maxLen overlap)).
                length c = maxLen \<or> (c \<noteq> [] \<and> last c \<in> enders))
          \<and> (maxLen < length D \<and> set (take maxLen D) \<inter> enders = {} \<longrightarrow>
                (\<exists>cs. chunk D maxLen overlap = take maxLen D # cs))
          \<and> (overlap < maxLen \<longrightarrow>
                successively (\<lambda>c c'. prefix (drop (length c - overlap) c) c')
                  (chunk D maxLen overlap))))"
proof (intro conjI impI)
  assume "set D \<subseteq> whitespace"
  then show "chunk D maxLen overlap = []"
    by (simp add: chunk_def whitespace_only_iff assms(1))
next
  assume h: "\<not> set D \<subseteq> whitespace \<and> 0 < overlap"
  then have w: "\<not> whitespace_only D"
    by (simp add: whitespace_only_iff assms(1))
  then have c: "chunk D maxLen overlap = accumulate maxLen overlap [] [] (split_sentences D)"
    by (simp add: chunk_def)
  obtain ps where ps: "concat ps = [] @ concat (split_sentences D)"
    "list_all2 suffix ps (accumulate maxLen overlap [] [] (split_sentences D))"
    using accumulate_covers [of "[]" "split_sentences D" maxLen overlap "[]"] by blast
  have d: "concat ps = D"
    using ps(1) by (simp add: concat_split_sentences)
  show "length D \<le> sum_list (map length (chunk D maxLen overlap))"
    using covered_length [OF ps(2)] by (simp add: c d)
  show "set D \<subseteq> \<Union> (set ` set (chunk D maxLen overlap))"
    using covered_set [OF ps(2)] by (simp add: c d)
  show "\<exists>ps. concat ps = D \<and> list_all2 suffix ps (chunk D maxLen overlap)"
    using ps(2) d c by auto
  assume m: "0 < maxLen"
  show "\<forall>c \<in> set (chunk D maxLen overlap). length c \<le> maxLen"
    using accumulate_bounded [OF m, of "[]" "[]" _ overlap "split_sentences D"] m
    by (simp add: c)
  have "\<forall>s \<in> set (butlast (split_sentences D)). s \<noteq> [] \<and> sentence_end (last s)"
    using split_from_sentence_ends [of _ "[]" D] by (simp add: split_sentences_def)
  then have "\<forall>c \<in> set (butlast (chunk D maxLen overlap)).
                length c = maxLen \<or> (c \<noteq> [] \<and> sentence_end (last c))"
    using accumulate_cuts [OF m, of "[]" "split_sentences D" "[]" _ overlap] m
    by (simp add: c)
  then show "\<forall>c \<in> set (butlast (chunk D maxLen overlap)).
                length c = maxLen \<or> (c \<noteq> [] \<and> last c \<in> enders)"
    by (simp add: sentence_end_iff assms(2))
  show "\<exists>cs. chunk D maxLen overlap = take maxLen D # cs"
    if "maxLen < length D \<and> set (take maxLen D) \<inter> enders = {}"
  proof -
    from that have "\<forall>c \<in> set (take maxLen D). \<not> sentence_end c"
      by (auto simp add: sentence_end_iff assms(2))
    with that w m show ?thesis
      using chunk_long_first_sentence by blast
  qed
  assume "overlap < maxLen"
  then have "min overlap (maxLen - 1) = overlap"
    by simp
  then have t: "trailing maxLen overlap x = drop (length x - overlap) x" for x
    by (simp add: trailing_def)
  show "successively (\<lambda>c c'. prefix (drop (length c - overlap) c) c')
                  (chunk D maxLen overlap)"
    using accumulate_overlaps [of maxLen overlap "[]" "[]" "split_sentences D"]
    by (simp add: c t)
qed

theorem chunk_covers_document_witness:
  "chunk ''   '' 8 2 = []
   \<and> chunk ''Go. Abcdefghijkl!'' 8 2 = [''Go.'', ''o. Abcde'', ''defghijk'', ''jkl!'']
   \<and> length ''Go. Abcdefghijkl!'' \<le> sum_list (map length (chunk ''Go. Abcdefghijkl!'' 8 2))
   \<and> set ''Go. Abcdefghijkl!'' \<subseteq> \<Union> (set ` set (chunk ''Go. Abcdefghijkl!'' 8 2))
   \<and> map length (chunk ''Go. Abcdefghijkl!'' 8 2) = [3, 8, 8, 4]
   \<and> successively (\<lambda>c c'. prefix (drop (length c - 2) c) c') (chunk ''Go. Abcdefghijkl!'' 8 2)
   \<and> (\<exists>cs. chunk ''Abcdefghijkl! Go.'' 8 2 = ''Abcdefgh'' # cs)"
proof -
  note covers = chunk_covers_document [OF refl refl]
  have c: "chunk ''Go. Abcdefghijkl!'' 8 2 = [''Go.'', ''o. Abcde'', ''defghijk'', ''jkl!'']"
    by code_simp
  have "chunk ''   '' 8 2 = []"
    using covers [of "''   ''" 8 2] by simp
  moreover have "\<exists>cs. chunk ''Abcdefghijkl! Go.'' 8 2 = ''Abcdefgh'' # cs"
    using covers [of "''Abcdefghijkl! Go.''" 8 2] by simp
  ultimately show ?thesis
    using covers [of "''Go. Abcdefghijkl!''" 8 2] c by simp
qed

end
